theory Spec2Isabelle
  imports Complex_Main "HOL-Library.AList"
begin

section \<open>Data model of index.js\<close>

text \<open>
  The server keeps one global object \<^verbatim>\<open>sessions\<close>, keyed by session id, whose values are
  \<^verbatim>\<open>{admin, viewers, currentPage, pdfUrl, createdAt}\<close> (index.js, lines 62 and 82--88).
  Socket ids, session ids and URLs are strings, the millisecond clock \<^verbatim>\<open>Date.now()\<close> is
  an integer.
\<close>

type_synonym conn_id = string
type_synonym session_id = string

text \<open>
  A page number is whatever value the client's \<^verbatim>\<open>page-change\<close> payload holds in the field
  \<^verbatim>\<open>pageNumber\<close>: the handler stores it as it arrives. The values of JavaScript that a
  JSON payload can carry: a number (a finite double, hence a rational), a string, a
  boolean, \<^verbatim>\<open>null\<close>, a missing field (\<^verbatim>\<open>undefined\<close>), or an array or object, kept
  here by its JSON text.
\<close>

datatype js_value =
    JNumber rat
  | JString string
  | JBoolean bool
  | JNull
  | JUndefined
  | JObject string

text \<open>The value is a number, it is whole, and it is greater than zero.\<close>

definition positive_integer :: "js_value \<Rightarrow> bool" where
  "positive_integer v =
     (case v of JNumber x \<Rightarrow> 0 < x \<and> rat_of_int \<lfloor>x\<rfloor> = x | _ \<Rightarrow> False)"

record session =
  admin :: conn_id
  viewers :: "conn_id list"
  currentPage :: js_value
  pdfUrl :: string
  createdAt :: int

text \<open>
  \<^verbatim>\<open>viewers\<close> is a JavaScript \<^verbatim>\<open>Set\<close>: a duplicate-free collection in insertion order.
  \<^verbatim>\<open>Set.prototype.add\<close> ignores an element that is already there,
  \<^verbatim>\<open>Set.prototype.delete\<close> removes it.
\<close>

definition set_add :: "'a \<Rightarrow> 'a list \<Rightarrow> 'a list" where
  "set_add x xs = (if x \<in> set xs then xs else xs @ [x])"

definition set_delete :: "'a \<Rightarrow> 'a list \<Rightarrow> 'a list" where
  "set_delete x xs = removeAll x xs"

text \<open>
  The own properties of \<^verbatim>\<open>sessions\<close>, in insertion order (the order of \<^verbatim>\<open>for ... in\<close>
  for keys that are not array indices). Assignment \<^verbatim>\<open>sessions[k] = v\<close> is
  \<^const>\<open>AList.update\<close>, \<^verbatim>\<open>delete sessions[k]\<close> is \<^const>\<open>AList.delete\<close>.
\<close>

type_synonym store = "(session_id \<times> session) list"

text \<open>
  \<^verbatim>\<open>sessions\<close> is created by the literal \<^verbatim>\<open>{}\<close>, so a property read that finds no own
  property continues in \<^verbatim>\<open>Object.prototype\<close>. The names below are the properties of
  \<^verbatim>\<open>Object.prototype\<close>; each of them reads as a function or an object, all truthy and
  none with a field \<^verbatim>\<open>admin\<close> or \<^verbatim>\<open>viewers\<close>. None of them is enumerable, so
  \<^verbatim>\<open>for ... in\<close> visits own keys only.
\<close>

definition object_prototype_keys :: "string list" where
  "object_prototype_keys =
     [''constructor'', ''__defineGetter__'', ''__defineSetter__'', ''hasOwnProperty'',
      ''__lookupGetter__'', ''__lookupSetter__'', ''isPrototypeOf'', ''propertyIsEnumerable'',
      ''toString'', ''valueOf'', ''__proto__'', ''toLocaleString'']"

datatype property = Undefined | Inherited | Own session

definition get_property :: "store \<Rightarrow> string \<Rightarrow> property" where
  "get_property ss k =
     (case map_of ss k of
        Some s \<Rightarrow> Own s
      | None \<Rightarrow> if k \<in> set object_prototype_keys then Inherited else Undefined)"

subsection \<open>Messages, rooms and the uploads directory\<close>

datatype message =
    SessionCreated session_id
  | SessionJoined string js_value
  | PageUpdate js_value
  | Error string

text \<open>What a handler emits: the receiving socket and the message, in order.\<close>

type_synonym outputs = "(conn_id \<times> message) list"

text \<open>
  The part of the file system that the disconnect handler touches. \<^verbatim>\<open>fs.existsSync\<close> is
  true for files and directories alike; \<^verbatim>\<open>fs.unlinkSync\<close> removes a file and throws on a
  directory or on a path that does not exist.
\<close>

datatype fnode = File | Dir

datatype exn = ENOENT | EISDIR

type_synonym filesystem = "string \<rightharpoonup> fnode"

definition existsSync :: "filesystem \<Rightarrow> string \<Rightarrow> bool" where
  "existsSync fs p = (fs p \<noteq> None)"

definition unlinkSync :: "filesystem \<Rightarrow> string \<Rightarrow> exn + filesystem" where
  "unlinkSync fs p =
     (case fs p of
        None \<Rightarrow> Inl ENOENT
      | Some Dir \<Rightarrow> Inl EISDIR
      | Some File \<Rightarrow> Inr (fs(p := None)))"

text \<open>
  \<^verbatim>\<open>path.basename\<close> (POSIX): trailing slashes are dropped, then everything up to the last
  slash. \<^verbatim>\<open>path.join(dir, b)\<close> for a \<^verbatim>\<open>b\<close> without slashes, normalised as Node does:
  an empty segment and \<^verbatim>\<open>.\<close> name \<^verbatim>\<open>dir\<close> itself, \<^verbatim>\<open>..\<close> names its parent.
\<close>

definition basename :: "string \<Rightarrow> string" where
  "basename p =
     rev (takeWhile (\<lambda>ch. ch \<noteq> CHR ''/'') (dropWhile (\<lambda>ch. ch = CHR ''/'') (rev p)))"

definition dirname :: "string \<Rightarrow> string" where
  "dirname p =
     (let d = rev (drop 1 (dropWhile (\<lambda>ch. ch \<noteq> CHR ''/'') (rev p)))
      in if d = [] then ''/'' else d)"

definition path_join :: "string \<Rightarrow> string \<Rightarrow> string" where
  "path_join dir b =
     (if b = [] \<or> b = ''.'' then dir
      else if b = ''..'' then dirname dir
      else dir @ ''/'' @ b)"

text \<open>
  The state of the process: the session table, the rooms of the socket server as the
  handlers' \<^verbatim>\<open>socket.join\<close> calls build them (a room is a set of socket ids), the file
  system, and the constant \<^verbatim>\<open>uploadsDir\<close> computed at start-up.
\<close>

record server =
  sessions :: store
  rooms :: "string \<Rightarrow> conn_id list"
  files :: filesystem
  uploadsDir :: string

definition socket_join :: "conn_id \<Rightarrow> string \<Rightarrow> (string \<Rightarrow> conn_id list) \<Rightarrow> (string \<Rightarrow> conn_id list)" where
  "socket_join c room rs = rs(room := set_add c (rs room))"

text \<open>\<^verbatim>\<open>io.to(room).emit(msg)\<close>: one copy of the message for every socket in the room.\<close>

definition io_to_emit :: "(string \<Rightarrow> conn_id list) \<Rightarrow> string \<Rightarrow> message \<Rightarrow> outputs" where
  "io_to_emit rs room msg = map (\<lambda>m. (m, msg)) (rs room)"

section \<open>The event handlers\<close>

text \<open>
  \<^verbatim>\<open>create-session\<close> (lines 79--96). The fresh id returned by \<^verbatim>\<open>uuidv4()\<close> and the
  value of \<^verbatim>\<open>Date.now()\<close> are inputs of the model.
\<close>

definition create_session :: "conn_id \<Rightarrow> session_id \<Rightarrow> string \<Rightarrow> int \<Rightarrow> server \<Rightarrow> server \<times> outputs" where
  "create_session c sessionId url now st =
     (st\<lparr>sessions :=
           AList.update sessionId
             \<lparr>admin = c, viewers = [], currentPage = JNumber 1, pdfUrl = url, createdAt = now\<rparr>
             (sessions st),
         rooms := socket_join c sessionId (rooms st)\<rparr>,
      [(c, SessionCreated sessionId)])"

text \<open>
  \<^verbatim>\<open>join-session\<close> (lines 98--115). When \<^verbatim>\<open>sessions[sessionId]\<close> is an inherited
  property, the test \<^verbatim>\<open>!sessions[sessionId]\<close> is false, \<^verbatim>\<open>socket.join\<close> runs, and
  \<^verbatim>\<open>sessions[sessionId].viewers.add\<close> throws a TypeError that the \<^verbatim>\<open>catch\<close> turns
  into the message \<^verbatim>\<open>Failed to join session\<close>.
\<close>

definition join_session :: "conn_id \<Rightarrow> session_id \<Rightarrow> server \<Rightarrow> server \<times> outputs" where
  "join_session c sessionId st =
     (case get_property (sessions st) sessionId of
        Undefined \<Rightarrow> (st, [(c, Error ''Session not found'')])
      | Inherited \<Rightarrow>
          (st\<lparr>rooms := socket_join c sessionId (rooms st)\<rparr>,
           [(c, Error ''Failed to join session'')])
      | Own s \<Rightarrow>
          (st\<lparr>sessions :=
                AList.update sessionId (s\<lparr>viewers := set_add c (viewers s)\<rparr>) (sessions st),
              rooms := socket_join c sessionId (rooms st)\<rparr>,
           [(c, SessionJoined (pdfUrl s) (currentPage s))]))"

text \<open>
  \<^verbatim>\<open>page-change\<close> (lines 117--135). For an inherited property \<^verbatim>\<open>.admin\<close> is
  \<^verbatim>\<open>undefined\<close>, which differs from every socket id. Line 128 assigns \<^verbatim>\<open>pageNumber\<close>
  without looking at it, and line 129 sends the same value to the room.
\<close>

definition page_change :: "conn_id \<Rightarrow> session_id \<Rightarrow> js_value \<Rightarrow> server \<Rightarrow> server \<times> outputs" where
  "page_change c sessionId pageNumber st =
     (case get_property (sessions st) sessionId of
        Undefined \<Rightarrow> (st, [(c, Error ''Session not found'')])
      | Inherited \<Rightarrow> (st, [(c, Error ''Unauthorized to change page'')])
      | Own s \<Rightarrow>
          if admin s \<noteq> c then (st, [(c, Error ''Unauthorized to change page'')])
          else
            (st\<lparr>sessions :=
                  AList.update sessionId (s\<lparr>currentPage := pageNumber\<rparr>) (sessions st)\<rparr>,
             io_to_emit (rooms st) sessionId (PageUpdate pageNumber)))"

text \<open>
  \<^verbatim>\<open>disconnect\<close> (lines 137--156). One pass of the loop body for the key \<^verbatim>\<open>sessionId\<close>:
  \<^const>\<open>Inl\<close> is an exception leaving the body, with the state as it is at the throw.
  A key deleted before it is reached is not visited by \<^verbatim>\<open>for ... in\<close>.
\<close>

definition file_path :: "server \<Rightarrow> session \<Rightarrow> string" where
  "file_path st s = path_join (uploadsDir st) (basename (pdfUrl s))"

definition disconnect_body :: "conn_id \<Rightarrow> session_id \<Rightarrow> server \<Rightarrow> exn + server" where
  "disconnect_body c sessionId st =
     (case map_of (sessions st) sessionId of
        None \<Rightarrow> Inr st
      | Some s \<Rightarrow>
          if admin s = c then
            (let filePath = file_path st s in
             if existsSync (files st) filePath then
               (case unlinkSync (files st) filePath of
                  Inl e \<Rightarrow> Inl e
                | Inr fs' \<Rightarrow>
                    Inr (st\<lparr>files := fs', sessions := AList.delete sessionId (sessions st)\<rparr>))
             else Inr (st\<lparr>sessions := AList.delete sessionId (sessions st)\<rparr>))
          else
            Inr (st\<lparr>sessions :=
                      AList.update sessionId (s\<lparr>viewers := set_delete c (viewers s)\<rparr>)
                        (sessions st)\<rparr>))"

text \<open>
  The loop sits inside one \<^verbatim>\<open>try\<close>: the first exception ends it, and the \<^verbatim>\<open>catch\<close>
  only logs. The result is the state reached and the exception logged, if any.
\<close>

fun disconnect_loop :: "conn_id \<Rightarrow> session_id list \<Rightarrow> server \<Rightarrow> server \<times> exn option" where
  "disconnect_loop c [] st = (st, None)"
| "disconnect_loop c (sessionId # rest) st =
     (case disconnect_body c sessionId st of
        Inl e \<Rightarrow> (st, Some e)
      | Inr st' \<Rightarrow> disconnect_loop c rest st')"

definition disconnect :: "conn_id \<Rightarrow> server \<Rightarrow> server \<times> exn option" where
  "disconnect c st = disconnect_loop c (map fst (sessions st)) st"

text \<open>The hourly sweep (lines 160--167), run at time \<^verbatim>\<open>now\<close>.\<close>

definition sweep_body :: "int \<Rightarrow> session_id \<Rightarrow> server \<Rightarrow> server" where
  "sweep_body now sessionId st =
     (case map_of (sessions st) sessionId of
        None \<Rightarrow> st
      | Some s \<Rightarrow>
          if now - createdAt s > 24 * 60 * 60 * 1000
          then st\<lparr>sessions := AList.delete sessionId (sessions st)\<rparr>
          else st)"

fun sweep_loop :: "int \<Rightarrow> session_id list \<Rightarrow> server \<Rightarrow> server" where
  "sweep_loop now [] st = st"
| "sweep_loop now (sessionId # rest) st = sweep_loop now rest (sweep_body now sessionId st)"

definition sweep :: "int \<Rightarrow> server \<Rightarrow> server" where
  "sweep now st = sweep_loop now (map fst (sessions st)) st"

subsection \<open>Runs of events\<close>

datatype event =
    CreateSession conn_id session_id string int
  | JoinSession conn_id session_id
  | PageChange conn_id session_id js_value
  | Disconnect conn_id
  | Sweep int

fun step :: "event \<Rightarrow> server \<Rightarrow> server" where
  "step (CreateSession c sessionId url now) st = fst (create_session c sessionId url now st)"
| "step (JoinSession c sessionId) st = fst (join_session c sessionId st)"
| "step (PageChange c sessionId pageNumber) st = fst (page_change c sessionId pageNumber st)"
| "step (Disconnect c) st = fst (disconnect c st)"
| "step (Sweep now) st = sweep now st"

fun run :: "server \<Rightarrow> event list \<Rightarrow> server" where
  "run st [] = st"
| "run st (ev # evs) = run (step ev st) evs"

text \<open>A condition on every event of a run, read in the state the event finds.\<close>

fun along :: "(server \<Rightarrow> event \<Rightarrow> bool) \<Rightarrow> server \<Rightarrow> event list \<Rightarrow> bool" where
  "along P st [] = True"
| "along P st (ev # evs) = (P st ev \<and> along P (step ev st) evs)"

text \<open>A JavaScript object has each key once.\<close>

definition wf_store :: "store \<Rightarrow> bool" where
  "wf_store ss = distinct (map fst ss)"

subsection \<open>Properties of states and of events\<close>

text \<open>No session lists its own controller among its viewers.\<close>

definition viewers_exclude_admin :: "server \<Rightarrow> bool" where
  "viewers_exclude_admin st = (\<forall>(k, s) \<in> set (sessions st). admin s \<notin> set (viewers s))"

text \<open>Every session's page is a positive integer.\<close>

definition pages_positive :: "server \<Rightarrow> bool" where
  "pages_positive st = (\<forall>(k, s) \<in> set (sessions st). positive_integer (currentPage s))"

text \<open>The event is not a join of a session by the connection that controls it.\<close>

fun no_self_join :: "server \<Rightarrow> event \<Rightarrow> bool" where
  "no_self_join st (JoinSession c sessionId) =
     (case get_property (sessions st) sessionId of Own s \<Rightarrow> admin s \<noteq> c | _ \<Rightarrow> True)"
| "no_self_join st _ = True"

text \<open>
  A page change that the handler accepts (it comes from the controller) carries a positive
  integer as its page number.
\<close>

fun accepted_page_positive :: "server \<Rightarrow> event \<Rightarrow> bool" where
  "accepted_page_positive st (PageChange c sessionId pageNumber) =
     (case get_property (sessions st) sessionId of
        Own s \<Rightarrow> admin s = c \<longrightarrow> positive_integer pageNumber
      | _ \<Rightarrow> True)"
| "accepted_page_positive st _ = True"

subsection \<open>Example states\<close>

text \<open>
  Two sessions of connection \<open>a\<close>: at time 90000000 the first is one millisecond older than
  24 hours, the second exactly 24 hours old.
\<close>

definition sweep_example :: server where
  "sweep_example =
     \<lparr>sessions =
        [(''s1'', \<lparr>admin = ''a'', viewers = [''b''], currentPage = JNumber 1,
                  pdfUrl = ''/uploads/x.pdf'', createdAt = 3599999\<rparr>),
         (''s2'', \<lparr>admin = ''a'', viewers = [], currentPage = JNumber 1,
                  pdfUrl = ''/uploads/y.pdf'', createdAt = 3600000\<rparr>)],
      rooms = (\<lambda>r. []),
      files = [''/app/uploads'' \<mapsto> Dir, ''/app/uploads/x.pdf'' \<mapsto> File,
               ''/app/uploads/y.pdf'' \<mapsto> File],
      uploadsDir = ''/app/uploads''\<rparr>"

text \<open>
  The process after start-up (lines 13--17 have created the uploads directory), with two
  uploaded files and no session.
\<close>

definition empty_server :: server where
  "empty_server =
     \<lparr>sessions = [],
      rooms = (\<lambda>r. []),
      files = [''/app/uploads'' \<mapsto> Dir, ''/app/uploads/x.pdf'' \<mapsto> File,
               ''/app/uploads/y.pdf'' \<mapsto> File],
      uploadsDir = ''/app/uploads''\<rparr>"

text \<open>
  Connection \<open>d\<close> creates \<open>s0\<close> and \<open>c\<close> joins it; \<open>c\<close> creates \<open>s1\<close> with an empty URL
  (nothing uploaded yet); \<open>d\<close> creates \<open>s2\<close> and \<open>c\<close> joins it; \<open>c\<close> creates \<open>s3\<close> for an
  uploaded file.
\<close>

definition busy_events :: "event list" where
  "busy_events =
     [CreateSession ''d'' ''s0'' ''/uploads/x.pdf'' 5,
      JoinSession ''c'' ''s0'',
      CreateSession ''c'' ''s1'' [] 10,
      CreateSession ''d'' ''s2'' ''/uploads/x.pdf'' 20,
      JoinSession ''c'' ''s2'',
      CreateSession ''c'' ''s3'' ''/uploads/y.pdf'' 30]"

definition busy_server :: server where
  "busy_server = run empty_server busy_events"

text \<open>
  The same connections in another order: \<open>d\<close> creates \<open>s0\<close> and \<open>c\<close> joins it; \<open>c\<close>
  creates \<open>s3\<close> for an uploaded file; \<open>d\<close> creates \<open>s2\<close> and \<open>c\<close> joins it; last,
  \<open>c\<close> creates \<open>s1\<close> with an empty URL.
\<close>

definition late_events :: "event list" where
  "late_events =
     [CreateSession ''d'' ''s0'' ''/uploads/x.pdf'' 5,
      JoinSession ''c'' ''s0'',
      CreateSession ''c'' ''s3'' ''/uploads/y.pdf'' 8,
      CreateSession ''d'' ''s2'' ''/uploads/x.pdf'' 9,
      JoinSession ''c'' ''s2'',
      CreateSession ''c'' ''s1'' [] 10]"

definition late_server :: server where
  "late_server = run empty_server late_events"

section \<open>The expiry sweep\<close>

lemma sweep_loop_sessions:
  "wf_store (sessions st) \<Longrightarrow>
   sessions (sweep_loop now ks st) =
     filter (\<lambda>(k, s). \<not> (k \<in> set ks \<and> now - createdAt s > 86400000)) (sessions st)"
proof (induction ks arbitrary: st)
  case Nil
  then show ?case by simp
next
  case (Cons k ks)
  let ?st' = "sweep_body now k st"
  have wf': "wf_store (sessions ?st')"
    using Cons.prems
    by (auto simp: sweep_body_def wf_store_def distinct_delete split: option.splits)
  have val: "\<And>k' s'. (k', s') \<in> set (sessions st) \<Longrightarrow> map_of (sessions st) k' = Some s'"
    using Cons.prems by (simp add: wf_store_def)
  have body: "sessions ?st' =
      filter (\<lambda>(k', s). \<not> (k' = k \<and> now - createdAt s > 86400000)) (sessions st)"
  proof (cases "map_of (sessions st) k")
    case None
    then have "\<And>s. (k, s) \<notin> set (sessions st)"
      using val by fastforce
    then have "filter (\<lambda>(k', s). \<not> (k' = k \<and> now - createdAt s > 86400000)) (sessions st)
        = sessions st"
      by (auto simp: filter_id_conv)
    with None show ?thesis by (simp add: sweep_body_def)
  next
    case (Some s)
    have only: "\<And>s'. (k, s') \<in> set (sessions st) \<Longrightarrow> s' = s"
      using val Some by fastforce
    show ?thesis
    proof (cases "now - createdAt s > 86400000")
      case True
      have "filter (\<lambda>(k', s). \<not> (k' = k \<and> now - createdAt s > 86400000)) (sessions st)
          = filter (\<lambda>(k', s). k \<noteq> k') (sessions st)"
        using only True by (intro filter_cong) auto
      with Some True show ?thesis
        by (simp add: sweep_body_def AList.delete_eq case_prod_unfold)
    next
      case False
      have "filter (\<lambda>(k', s). \<not> (k' = k \<and> now - createdAt s > 86400000)) (sessions st)
          = sessions st"
        using only False by (auto simp: filter_id_conv)
      with Some False show ?thesis by (simp add: sweep_body_def)
    qed
  qed
  have "sessions (sweep_loop now (k # ks) st) =
      filter (\<lambda>(k', s). \<not> (k' \<in> set ks \<and> now - createdAt s > 86400000)) (sessions ?st')"
    using Cons.IH [OF wf'] by simp
  also have "\<dots> = filter (\<lambda>(k', s). \<not> (k' \<in> set (k # ks) \<and> now - createdAt s > 86400000))
      (sessions st)"
    unfolding body by (auto simp: case_prod_unfold intro: filter_cong)
  finally show ?case .
qed

lemma sweep_body_frame:
  "rooms (sweep_body now k st) = rooms st \<and> files (sweep_body now k st) = files st
   \<and> uploadsDir (sweep_body now k st) = uploadsDir st"
  by (simp add: sweep_body_def split: option.splits)

lemma sweep_loop_frame:
  "rooms (sweep_loop now ks st) = rooms st \<and> files (sweep_loop now ks st) = files st
   \<and> uploadsDir (sweep_loop now ks st) = uploadsDir st"
  by (induction ks arbitrary: st) (simp_all add: sweep_body_frame)

lemma sweep_sessions:
  assumes "wf_store (sessions st)"
  shows "sessions (sweep now st) =
           filter (\<lambda>(k, s). now - createdAt s \<le> 86400000) (sessions st)"
proof -
  have "sessions (sweep now st) =
      filter (\<lambda>(k, s). \<not> (k \<in> set (map fst (sessions st)) \<and> now - createdAt s > 86400000))
        (sessions st)"
    unfolding sweep_def by (rule sweep_loop_sessions [OF assms])
  also have "\<dots> = filter (\<lambda>(k, s). now - createdAt s \<le> 86400000) (sessions st)"
    by (intro filter_cong) force+
  finally show ?thesis .
qed

lemma sweep_lookup:
  assumes "wf_store (sessions st)" and "(k, s) \<in> set (sessions st)"
  shows "map_of (sessions (sweep now st)) k =
           (if now - createdAt s > 86400000 then None else Some s)"
proof (cases "now - createdAt s > 86400000")
  case True
  have one: "\<And>s'. (k, s') \<in> set (sessions st) \<Longrightarrow> s' = s"
    using map_of_is_SomeI [of "sessions st" k] assms
    by (fastforce simp: wf_store_def)
  have "k \<notin> fst ` set (sessions (sweep now st))"
    unfolding sweep_sessions [OF assms(1)] using one True by auto
  with True show ?thesis by (simp add: map_of_eq_None_iff)
next
  case False
  have d: "distinct (map fst (sessions (sweep now st)))"
    unfolding sweep_sessions [OF assms(1)]
    using assms(1) by (simp add: wf_store_def distinct_map_filter)
  have "(k, s) \<in> set (sessions (sweep now st))"
    unfolding sweep_sessions [OF assms(1)] using assms(2) False by simp
  with d False show ?thesis by simp
qed

text \<open>
  C5. A sweep at time \<open>now\<close> leaves in the table exactly the entries whose age
  \<open>now - createdAt\<close> is at most 24 hours (86400000 ms), unchanged and in their order, and
  removes every entry whose age is greater; an entry aged exactly 24 hours stays.
\<close>

theorem sweep_removes_exactly_expired:
  assumes "wf_store (sessions st)"
  shows "sessions (sweep now st) =
           filter (\<lambda>(k, s). now - createdAt s \<le> 24 * 60 * 60 * 1000) (sessions st)
         \<and> (\<forall>(k, s) \<in> set (sessions st).
              map_of (sessions (sweep now st)) k =
                (if now - createdAt s > 24 * 60 * 60 * 1000 then None else Some s))"
  using sweep_sessions [OF assms, of now] sweep_lookup [OF assms, of _ _ now] by auto

theorem sweep_removes_exactly_expired_witness:
  "wf_store (sessions sweep_example)
   \<and> sessions (sweep 90000000 sweep_example) =
       [(''s2'', \<lparr>admin = ''a'', viewers = [], currentPage = JNumber 1, pdfUrl = ''/uploads/y.pdf'',
                 createdAt = 3600000\<rparr>)]
   \<and> map_of (sessions (sweep 90000000 sweep_example)) ''s1'' = None"
  using sweep_removes_exactly_expired [of sweep_example 90000000]
  by (simp add: sweep_example_def wf_store_def)

section \<open>Looking up and joining a session\<close>

lemma set_add_idem: "set_add x (set_add x xs) = set_add x xs"
  by (simp add: set_add_def)

lemma socket_join_idem: "socket_join c r (socket_join c r rs) = socket_join c r rs"
  by (simp add: socket_join_def set_add_idem)

lemma get_property_Own: "get_property ss k = Own s \<longleftrightarrow> map_of ss k = Some s"
  by (simp add: get_property_def split: option.splits)

lemma get_property_Undefined:
  "get_property ss k = Undefined \<longleftrightarrow> map_of ss k = None \<and> k \<notin> set object_prototype_keys"
  by (simp add: get_property_def split: option.splits)

lemma get_property_update: "get_property (AList.update k v ss) k = Own v"
  by (simp add: get_property_def update_conv')

text \<open>
  A join with an id that is neither an own key of the table nor a property name of
  \<^verbatim>\<open>Object.prototype\<close> changes nothing and answers \<^verbatim>\<open>Session not found\<close>.
\<close>

lemma join_session_undefined:
  "get_property (sessions st) sessionId = Undefined \<Longrightarrow>
     join_session c sessionId st = (st, [(c, Error ''Session not found'')])"
  by (simp add: join_session_def)

text \<open>
  C6. A join request whose session id is absent from the store should answer
  \<^verbatim>\<open>Session not found\<close> and leave the store unchanged. At the id \<^verbatim>\<open>constructor\<close>, which
  is no key of the empty table, the handler leaves the table empty but answers
  \<^verbatim>\<open>Failed to join session\<close>, and the requester has been put into the room of that name.
\<close>

theorem join_session_inherited_key:
  "map_of (sessions empty_server) ''constructor'' = None
   \<and> snd (join_session ''c1'' ''constructor'' empty_server) =
       [(''c1'', Error ''Failed to join session'')]
   \<and> sessions (fst (join_session ''c1'' ''constructor'' empty_server)) = []
   \<and> rooms (fst (join_session ''c1'' ''constructor'' empty_server)) ''constructor'' = [''c1'']"
  by (simp add: join_session_def get_property_def object_prototype_keys_def empty_server_def
      socket_join_def set_add_def)

text \<open>
  C8. Joining an existing session a second time with the same connection gives the state
  that the first join gave, and the same answer: the session's \<open>pdfUrl\<close> and
  \<open>currentPage\<close>.
\<close>

theorem join_twice_idempotent:
  assumes "get_property (sessions st) sessionId = Own s"
  shows "join_session c sessionId (fst (join_session c sessionId st)) = join_session c sessionId st
         \<and> snd (join_session c sessionId st) = [(c, SessionJoined (pdfUrl s) (currentPage s))]"
  using assms
  by (simp add: join_session_def get_property_update set_add_idem socket_join_idem)

theorem join_twice_idempotent_witness:
  "get_property (sessions sweep_example) ''s2'' =
     Own \<lparr>admin = ''a'', viewers = [], currentPage = JNumber 1, pdfUrl = ''/uploads/y.pdf'',
          createdAt = 3600000\<rparr>
   \<and> join_session ''b'' ''s2'' (fst (join_session ''b'' ''s2'' sweep_example)) =
       join_session ''b'' ''s2'' sweep_example
   \<and> snd (join_session ''b'' ''s2'' sweep_example) =
       [(''b'', SessionJoined ''/uploads/y.pdf'' (JNumber 1))]"
proof -
  have own: "get_property (sessions sweep_example) ''s2'' =
     Own \<lparr>admin = ''a'', viewers = [], currentPage = JNumber 1, pdfUrl = ''/uploads/y.pdf'',
          createdAt = 3600000\<rparr>"
    by (simp add: get_property_def sweep_example_def)
  show ?thesis
    using own join_twice_idempotent [OF own, of "''b''"] by simp
qed

section \<open>Changing the page\<close>

text \<open>
  The three outcomes of a page change for an id that is an own key of the table or that
  \<^verbatim>\<open>sessions[sessionId]\<close> reads as \<^verbatim>\<open>undefined\<close>: not found; refused for a connection
  other than the controller, the state untouched; accepted from the controller, the page
  stored and sent to every socket of the session's room.
\<close>

lemma page_change_cases:
  "get_property (sessions st) sessionId = Undefined \<Longrightarrow>
     page_change c sessionId p st = (st, [(c, Error ''Session not found'')])"
  "get_property (sessions st) sessionId = Own s \<Longrightarrow> admin s \<noteq> c \<Longrightarrow>
     page_change c sessionId p st = (st, [(c, Error ''Unauthorized to change page'')])"
  "get_property (sessions st) sessionId = Own s \<Longrightarrow> admin s = c \<Longrightarrow>
     page_change c sessionId p st =
       (st\<lparr>sessions := AList.update sessionId (s\<lparr>currentPage := p\<rparr>) (sessions st)\<rparr>,
        map (\<lambda>m. (m, PageUpdate p)) (rooms st sessionId))"
  by (simp_all add: page_change_def io_to_emit_def)

text \<open>
  C1. A page change for a session id absent from the store should answer
  \<^verbatim>\<open>Session not found\<close>. At the id \<^verbatim>\<open>constructor\<close>, which is no key of the empty table,
  the handler answers \<^verbatim>\<open>Unauthorized to change page\<close>; the state is unchanged.
\<close>

theorem page_change_inherited_key:
  "map_of (sessions empty_server) ''constructor'' = None
   \<and> page_change ''c1'' ''constructor'' (JNumber 2) empty_server =
       (empty_server, [(''c1'', Error ''Unauthorized to change page'')])"
  by (simp add: page_change_def get_property_def object_prototype_keys_def empty_server_def)

section \<open>Properties of every session of the table\<close>

text \<open>
  A property of single sessions that holds for every entry of the table is kept by a
  handler as soon as the entry the handler writes has it.
\<close>

lemma in_update:
  "(k', v') \<in> set (AList.update k v al) \<Longrightarrow> (k', v') = (k, v) \<or> (k', v') \<in> set al"
  by (induction al) (auto split: if_splits)

lemma update_all:
  assumes "\<forall>s \<in> snd ` set al. P s" and "P v"
  shows "\<forall>s \<in> snd ` set (AList.update k0 v al). P s"
proof
  fix s assume "s \<in> snd ` set (AList.update k0 v al)"
  then obtain k where "(k, s) \<in> set (AList.update k0 v al)" by auto
  from in_update [OF this] assms show "P s" by force
qed

lemma delete_all:
  "\<forall>s \<in> snd ` set al. P s \<Longrightarrow> \<forall>s \<in> snd ` set (AList.delete k0 al). P s"
  by (auto simp: AList.delete_eq)

lemma lookup_all: "\<forall>s \<in> snd ` set al. P s \<Longrightarrow> map_of al k = Some s \<Longrightarrow> P s"
  by (force dest: map_of_SomeD)

lemma create_session_all:
  assumes "\<forall>s \<in> snd ` set (sessions st). P s"
    and "P \<lparr>admin = c, viewers = [], currentPage = JNumber 1, pdfUrl = url, createdAt = now\<rparr>"
  shows "\<forall>s \<in> snd ` set (sessions (fst (create_session c sid url now st))). P s"
  using update_all [of "sessions st" P, OF assms] by (simp add: create_session_def)

lemma join_session_all:
  assumes "\<forall>s \<in> snd ` set (sessions st). P s"
    and "\<And>s. map_of (sessions st) sid = Some s \<Longrightarrow> P s \<Longrightarrow> P (s\<lparr>viewers := set_add c (viewers s)\<rparr>)"
  shows "\<forall>s \<in> snd ` set (sessions (fst (join_session c sid st))). P s"
proof (cases "get_property (sessions st) sid")
  case (Own s)
  then have m: "map_of (sessions st) sid = Some s" by (simp add: get_property_Own)
  have "P (s\<lparr>viewers := set_add c (viewers s)\<rparr>)"
    using assms(2) [OF m] lookup_all [of "sessions st" P, OF assms(1) m] by simp
  from update_all [of "sessions st" P, OF assms(1) this] Own show ?thesis
    by (simp add: join_session_def)
qed (use assms(1) in \<open>simp_all add: join_session_def\<close>)

lemma page_change_all:
  assumes "\<forall>s \<in> snd ` set (sessions st). P s"
    and "\<And>s. map_of (sessions st) sid = Some s \<Longrightarrow> admin s = c \<Longrightarrow> P s \<Longrightarrow> P (s\<lparr>currentPage := p\<rparr>)"
  shows "\<forall>s \<in> snd ` set (sessions (fst (page_change c sid p st))). P s"
proof (cases "get_property (sessions st) sid")
  case (Own s)
  then have m: "map_of (sessions st) sid = Some s" by (simp add: get_property_Own)
  show ?thesis
  proof (cases "admin s = c")
    case True
    have "P (s\<lparr>currentPage := p\<rparr>)"
      using assms(2) [OF m True] lookup_all [of "sessions st" P, OF assms(1) m] by simp
    from update_all [of "sessions st" P, OF assms(1) this] Own True show ?thesis
      by (simp add: page_change_def)
  next
    case False
    with Own assms(1) show ?thesis by (simp add: page_change_def)
  qed
qed (use assms(1) in \<open>simp_all add: page_change_def\<close>)

lemma disconnect_body_all:
  assumes "\<forall>s \<in> snd ` set (sessions st). P s"
    and "\<And>s. P s \<Longrightarrow> P (s\<lparr>viewers := set_delete c (viewers s)\<rparr>)"
    and "disconnect_body c sid st = Inr st'"
  shows "\<forall>s \<in> snd ` set (sessions st'). P s"
proof (cases "map_of (sessions st) sid")
  case None
  with assms show ?thesis by (simp add: disconnect_body_def)
next
  case (Some s)
  have "P (s\<lparr>viewers := set_delete c (viewers s)\<rparr>)"
    using assms(2) lookup_all [of "sessions st" P, OF assms(1) Some] by simp
  then have upd: "\<forall>t \<in> snd ` set (AList.update sid (s\<lparr>viewers := set_delete c (viewers s)\<rparr>)
      (sessions st)). P t"
    by (rule update_all [of "sessions st" P, OF assms(1)])
  have del: "\<forall>t \<in> snd ` set (AList.delete sid (sessions st)). P t"
    by (rule delete_all [OF assms(1)])
  have "sessions st' = AList.delete sid (sessions st)
      \<or> sessions st' = AList.update sid (s\<lparr>viewers := set_delete c (viewers s)\<rparr>) (sessions st)"
    using assms(3) Some
    by (auto simp: disconnect_body_def Let_def split: if_splits sum.splits)
  with upd del show ?thesis by metis
qed

lemma disconnect_loop_all:
  assumes "\<forall>s \<in> snd ` set (sessions st). P s"
    and "\<And>s. P s \<Longrightarrow> P (s\<lparr>viewers := set_delete c (viewers s)\<rparr>)"
  shows "\<forall>s \<in> snd ` set (sessions (fst (disconnect_loop c ks st))). P s"
  using assms(1)
proof (induction ks arbitrary: st)
  case Nil
  then show ?case by simp
next
  case (Cons k ks)
  show ?case
  proof (cases "disconnect_body c k st")
    case (Inl e)
    with Cons.prems show ?thesis by simp
  next
    case (Inr st1)
    from disconnect_body_all [of st P, OF Cons.prems assms(2) Inr]
    have "\<forall>s \<in> snd ` set (sessions (fst (disconnect_loop c ks st1))). P s"
      by (rule Cons.IH)
    with Inr show ?thesis by simp
  qed
qed

lemma sweep_loop_all:
  "\<forall>s \<in> snd ` set (sessions st). P s \<Longrightarrow>
   \<forall>s \<in> snd ` set (sessions (sweep_loop now ks st)). P s"
proof (induction ks arbitrary: st)
  case Nil
  then show ?case by simp
next
  case (Cons k ks)
  have "\<forall>s \<in> snd ` set (sessions (sweep_body now k st)). P s"
    using Cons.prems delete_all [of "sessions st" P k, OF Cons.prems]
    by (simp add: sweep_body_def split: option.splits)
  from Cons.IH [OF this] show ?case by simp
qed

lemma viewers_exclude_admin_alt:
  "viewers_exclude_admin st \<longleftrightarrow> (\<forall>s \<in> snd ` set (sessions st). admin s \<notin> set (viewers s))"
  by (force simp: viewers_exclude_admin_def)

lemma pages_positive_alt:
  "pages_positive st \<longleftrightarrow> (\<forall>s \<in> snd ` set (sessions st). positive_integer (currentPage s))"
  by (force simp: pages_positive_def)

lemma step_viewers_exclude_admin:
  assumes "viewers_exclude_admin st" "no_self_join st ev"
  shows "viewers_exclude_admin (step ev st)"
proof -
  let ?P = "\<lambda>s. admin s \<notin> set (viewers s)"
  have inv: "\<forall>s \<in> snd ` set (sessions st). ?P s"
    using assms(1) by (simp add: viewers_exclude_admin_alt)
  have "\<forall>s \<in> snd ` set (sessions (step ev st)). ?P s"
  proof (cases ev)
    case (CreateSession c sid url now)
    have "\<forall>s \<in> snd ` set (sessions (fst (create_session c sid url now st))). ?P s"
      by (rule create_session_all [of st ?P, OF inv]) simp
    with CreateSession show ?thesis by simp
  next
    case (JoinSession c sid)
    have "\<forall>s \<in> snd ` set (sessions (fst (join_session c sid st))). ?P s"
    proof (rule join_session_all [of st ?P, OF inv])
      fix s assume "map_of (sessions st) sid = Some s" "?P s"
      with assms(2) JoinSession show "?P (s\<lparr>viewers := set_add c (viewers s)\<rparr>)"
        by (simp add: get_property_def set_add_def)
    qed
    with JoinSession show ?thesis by simp
  next
    case (PageChange c sid p)
    have "\<forall>s \<in> snd ` set (sessions (fst (page_change c sid p st))). ?P s"
      by (rule page_change_all [of st ?P, OF inv]) simp
    with PageChange show ?thesis by simp
  next
    case (Disconnect c)
    have "\<forall>s \<in> snd ` set (sessions (fst (disconnect_loop c (map fst (sessions st)) st))). ?P s"
      by (rule disconnect_loop_all [of st ?P, OF inv]) (simp add: set_delete_def)
    with Disconnect show ?thesis by (simp add: disconnect_def)
  next
    case (Sweep now)
    have "\<forall>s \<in> snd ` set (sessions (sweep_loop now (map fst (sessions st)) st)). ?P s"
      by (rule sweep_loop_all [of st ?P, OF inv])
    with Sweep show ?thesis by (simp add: sweep_def)
  qed
  then show ?thesis by (simp add: viewers_exclude_admin_alt)
qed

lemma step_pages_positive:
  assumes "pages_positive st" "accepted_page_positive st ev"
  shows "pages_positive (step ev st)"
proof -
  let ?P = "\<lambda>s. positive_integer (currentPage s)"
  have inv: "\<forall>s \<in> snd ` set (sessions st). ?P s"
    using assms(1) by (simp add: pages_positive_alt)
  have "\<forall>s \<in> snd ` set (sessions (step ev st)). ?P s"
  proof (cases ev)
    case (CreateSession c sid url now)
    have "\<forall>s \<in> snd ` set (sessions (fst (create_session c sid url now st))). ?P s"
      by (rule create_session_all [of st ?P, OF inv]) (simp add: positive_integer_def)
    with CreateSession show ?thesis by simp
  next
    case (JoinSession c sid)
    have "\<forall>s \<in> snd ` set (sessions (fst (join_session c sid st))). ?P s"
      by (rule join_session_all [of st ?P, OF inv]) simp
    with JoinSession show ?thesis by simp
  next
    case (PageChange c sid p)
    have "\<forall>s \<in> snd ` set (sessions (fst (page_change c sid p st))). ?P s"
    proof (rule page_change_all [of st ?P, OF inv])
      fix s assume "map_of (sessions st) sid = Some s" "admin s = c"
      with assms(2) PageChange show "?P (s\<lparr>currentPage := p\<rparr>)"
        by (simp add: get_property_def)
    qed
    with PageChange show ?thesis by simp
  next
    case (Disconnect c)
    have "\<forall>s \<in> snd ` set (sessions (fst (disconnect_loop c (map fst (sessions st)) st))). ?P s"
      by (rule disconnect_loop_all [of st ?P, OF inv]) simp
    with Disconnect show ?thesis by (simp add: disconnect_def)
  next
    case (Sweep now)
    have "\<forall>s \<in> snd ` set (sessions (sweep_loop now (map fst (sessions st)) st)). ?P s"
      by (rule sweep_loop_all [of st ?P, OF inv])
    with Sweep show ?thesis by (simp add: sweep_def)
  qed
  then show ?thesis by (simp add: pages_positive_alt)
qed

text \<open>
  C2. Over every run of create, join, page-change, disconnect and sweep events in which no
  connection joins a session that it controls itself, no session ever lists its controller
  among its viewers. (The join handler adds whoever asks, the controller included.)
\<close>

theorem viewers_exclude_admin_without_self_join:
  assumes "viewers_exclude_admin st" and "along no_self_join st evs"
  shows "viewers_exclude_admin (run st evs)"
  using assms
  by (induction evs arbitrary: st) (simp_all add: step_viewers_exclude_admin)

text \<open>
  The claim without the restriction fails: connection \<open>a\<close> creates a session and then
  joins it.
\<close>

theorem viewers_exclude_admin_counterexample:
  "sessions (run empty_server
       [CreateSession ''a'' ''s1'' ''/uploads/x.pdf'' 0, JoinSession ''a'' ''s1'']) =
     [(''s1'', \<lparr>admin = ''a'', viewers = [''a''], currentPage = JNumber 1, pdfUrl = ''/uploads/x.pdf'',
               createdAt = 0\<rparr>)]
   \<and> \<not> viewers_exclude_admin (run empty_server
       [CreateSession ''a'' ''s1'' ''/uploads/x.pdf'' 0, JoinSession ''a'' ''s1''])"
  by (simp add: empty_server_def create_session_def join_session_def get_property_def
      set_add_def viewers_exclude_admin_def)

theorem viewers_exclude_admin_without_self_join_witness:
  "viewers_exclude_admin empty_server \<and> along no_self_join empty_server busy_events
   \<and> viewers_exclude_admin (run empty_server busy_events)"
proof -
  have h1: "viewers_exclude_admin empty_server"
    by (simp add: viewers_exclude_admin_def empty_server_def)
  have h2: "along no_self_join empty_server busy_events"
    by (simp add: busy_events_def empty_server_def create_session_def join_session_def
        get_property_def set_add_def)
  from viewers_exclude_admin_without_self_join [OF h1 h2] h1 h2 show ?thesis by simp
qed

text \<open>
  C7. A session is created with \<open>currentPage = 1\<close>, and over every run in which each page
  change accepted from a controller carries a positive integer as its page number, every
  session's \<open>currentPage\<close> stays a positive integer. (The handler stores the controller's
  value as it comes, whatever it is.)
\<close>

theorem current_page_positive_for_positive_requests:
  "map_of (sessions (step (CreateSession c sessionId url now) st)) sessionId =
     Some \<lparr>admin = c, viewers = [], currentPage = JNumber 1, pdfUrl = url, createdAt = now\<rparr>
   \<and> (pages_positive st \<and> along accepted_page_positive st evs \<longrightarrow> pages_positive (run st evs))"
proof -
  have "pages_positive st \<Longrightarrow> along accepted_page_positive st evs \<Longrightarrow> pages_positive (run st evs)"
    by (induction evs arbitrary: st) (simp_all add: step_pages_positive)
  then show ?thesis
    by (auto simp: create_session_def update_conv')
qed

lemma positive_integer_examples:
  "\<not> positive_integer (JNumber 0)"
  "\<not> positive_integer (JNumber (3 / 2))"
  "positive_integer (JNumber 5)"
  "\<not> positive_integer (JString v)"
proof -
  have "\<lfloor>3 / 2 :: rat\<rfloor> = 1" by (simp add: floor_eq_iff)
  then show "\<not> positive_integer (JNumber (3 / 2))"
    by (simp add: positive_integer_def)
qed (simp_all add: positive_integer_def)

text \<open>
  The claim for all accepted inputs fails: the controller \<open>a\<close> sends page number 0, and
  the session's page is 0. A positive number that is not whole is stored as well: after
  the controller sends 3/2 the page is 3/2.
\<close>

theorem current_page_positive_counterexample:
  "sessions (run empty_server
       [CreateSession ''a'' ''s1'' ''/uploads/x.pdf'' 0, PageChange ''a'' ''s1'' (JNumber 0)]) =
     [(''s1'', \<lparr>admin = ''a'', viewers = [], currentPage = JNumber 0, pdfUrl = ''/uploads/x.pdf'',
               createdAt = 0\<rparr>)]
   \<and> \<not> pages_positive (run empty_server
       [CreateSession ''a'' ''s1'' ''/uploads/x.pdf'' 0, PageChange ''a'' ''s1'' (JNumber 0)])
   \<and> \<not> pages_positive (run empty_server
       [CreateSession ''a'' ''s1'' ''/uploads/x.pdf'' 0, PageChange ''a'' ''s1'' (JNumber (3 / 2))])"
  by (simp add: empty_server_def create_session_def page_change_def get_property_def
      pages_positive_def positive_integer_examples)

theorem current_page_positive_for_positive_requests_witness:
  "pages_positive empty_server
   \<and> along accepted_page_positive empty_server
       [CreateSession ''a'' ''s1'' ''/uploads/x.pdf'' 0, PageChange ''a'' ''s1'' (JNumber 5),
        PageChange ''b'' ''s1'' (JString ''7'')]
   \<and> pages_positive (run empty_server
       [CreateSession ''a'' ''s1'' ''/uploads/x.pdf'' 0, PageChange ''a'' ''s1'' (JNumber 5),
        PageChange ''b'' ''s1'' (JString ''7'')])
   \<and> sessions (run empty_server
       [CreateSession ''a'' ''s1'' ''/uploads/x.pdf'' 0, PageChange ''a'' ''s1'' (JNumber 5),
        PageChange ''b'' ''s1'' (JString ''7'')]) =
     [(''s1'', \<lparr>admin = ''a'', viewers = [], currentPage = JNumber 5, pdfUrl = ''/uploads/x.pdf'',
               createdAt = 0\<rparr>)]"
proof -
  let ?evs = "[CreateSession ''a'' ''s1'' ''/uploads/x.pdf'' 0, PageChange ''a'' ''s1'' (JNumber 5),
        PageChange ''b'' ''s1'' (JString ''7'')]"
  have h1: "pages_positive empty_server"
    by (simp add: pages_positive_def empty_server_def)
  have h2: "along accepted_page_positive empty_server ?evs"
    by (simp add: empty_server_def create_session_def page_change_def get_property_def
        positive_integer_examples)
  have h3: "sessions (run empty_server ?evs) =
     [(''s1'', \<lparr>admin = ''a'', viewers = [], currentPage = JNumber 5, pdfUrl = ''/uploads/x.pdf'',
               createdAt = 0\<rparr>)]"
    by (simp add: empty_server_def create_session_def page_change_def get_property_def)
  from current_page_positive_for_positive_requests [of "''a''" "''s1''" "''/uploads/x.pdf''" 0
      empty_server ?evs] h1 h2 h3
  show ?thesis by blast
qed

section \<open>Disconnecting\<close>

subsection \<open>What the loop keeps\<close>

lemma map_of_in_keys: "map_of ss k = Some s \<Longrightarrow> k \<in> set (map fst ss)"
  by (metis map_of_eq_None_iff option.distinct(1) set_map)

lemma disconnect_body_files:
  "disconnect_body c k st = Inr st' \<Longrightarrow>
     uploadsDir st' = uploadsDir st \<and> rooms st' = rooms st
     \<and> (\<forall>p. files st p = None \<longrightarrow> files st' p = None)"
  by (auto simp: disconnect_body_def Let_def unlinkSync_def
      split: option.splits if_splits sum.splits fnode.splits)

lemma disconnect_loop_files:
  "disconnect_loop c ks st = (st', err) \<Longrightarrow>
     uploadsDir st' = uploadsDir st \<and> rooms st' = rooms st
     \<and> (\<forall>p. files st p = None \<longrightarrow> files st' p = None)"
proof (induction ks arbitrary: st)
  case Nil
  then show ?case by simp
next
  case (Cons k ks)
  show ?case
  proof (cases "disconnect_body c k st")
    case (Inl e)
    with Cons.prems show ?thesis by simp
  next
    case (Inr st1)
    with Cons.prems have "disconnect_loop c ks st1 = (st', err)" by simp
    from Cons.IH [OF this] disconnect_body_files [OF Inr] show ?thesis by simp
  qed
qed

lemma disconnect_body_other:
  "disconnect_body c k st = Inr st' \<Longrightarrow> k \<noteq> sid \<Longrightarrow>
     map_of (sessions st') sid = map_of (sessions st) sid"
  by (auto simp: disconnect_body_def Let_def update_conv' delete_conv'
      split: option.splits if_splits sum.splits)

lemma disconnect_loop_other:
  "k \<notin> set ks \<Longrightarrow> disconnect_loop c ks st = (st', err) \<Longrightarrow>
     map_of (sessions st') k = map_of (sessions st) k"
proof (induction ks arbitrary: st)
  case Nil
  then show ?case by simp
next
  case (Cons k' ks)
  show ?case
  proof (cases "disconnect_body c k' st")
    case (Inl e)
    with Cons.prems show ?thesis by simp
  next
    case (Inr st1)
    with Cons.prems have rest: "disconnect_loop c ks st1 = (st', err)" by simp
    from Cons.prems(1) have "k' \<noteq> k" "k \<notin> set ks" by auto
    from Cons.IH [OF this(2) rest] disconnect_body_other [OF Inr this(1)]
    show ?thesis by simp
  qed
qed

lemma disconnect_body_absent:
  "map_of (sessions st) sid = None \<Longrightarrow> disconnect_body c k st = Inr st' \<Longrightarrow>
     map_of (sessions st') sid = None"
  by (cases "k = sid") (auto simp: disconnect_body_other, simp add: disconnect_body_def)

lemma disconnect_loop_absent:
  "map_of (sessions st) sid = None \<Longrightarrow> disconnect_loop c ks st = (st', err) \<Longrightarrow>
     map_of (sessions st') sid = None"
proof (induction ks arbitrary: st)
  case Nil
  then show ?case by simp
next
  case (Cons k ks)
  show ?case
  proof (cases "disconnect_body c k st")
    case (Inl e)
    with Cons.prems show ?thesis by simp
  next
    case (Inr st1)
    with Cons.prems have l: "disconnect_loop c ks st1 = (st', err)" by simp
    from disconnect_body_absent [OF Cons.prems(1) Inr] l show ?thesis
      by (rule Cons.IH)
  qed
qed

lemma disconnect_body_admin:
  assumes "map_of (sessions st) sid = Some s" "admin s = c" "disconnect_body c sid st = Inr st'"
  shows "map_of (sessions st') sid = None \<and> files st' (file_path st s) = None"
  using assms
  by (auto simp: disconnect_body_def Let_def delete_conv' unlinkSync_def existsSync_def
      split: option.splits if_splits sum.splits fnode.splits)

lemma disconnect_loop_admin:
  assumes "map_of (sessions st) sid = Some s" "admin s = c" "sid \<in> set ks"
    "disconnect_loop c ks st = (st', None)"
  shows "map_of (sessions st') sid = None \<and> files st' (file_path st s) = None"
  using assms
proof (induction ks arbitrary: st)
  case Nil
  then show ?case by simp
next
  case (Cons k ks)
  from Cons.prems(4) obtain st1 where body: "disconnect_body c k st = Inr st1"
    and rest: "disconnect_loop c ks st1 = (st', None)"
    by (auto split: sum.splits)
  have ud: "uploadsDir st1 = uploadsDir st"
    using disconnect_body_files [OF body] by simp
  then have fp: "file_path st1 s = file_path st s"
    by (simp add: file_path_def)
  show ?case
  proof (cases "k = sid")
    case True
    with body Cons.prems have gone: "map_of (sessions st1) sid = None"
      and nofile: "files st1 (file_path st s) = None"
      using disconnect_body_admin by blast+
    from disconnect_loop_absent [OF gone rest] disconnect_loop_files [OF rest] nofile
    show ?thesis by simp
  next
    case False
    with Cons.prems have "sid \<in> set ks" by simp
    moreover have "map_of (sessions st1) sid = Some s"
      using disconnect_body_other [OF body False] Cons.prems(1) by simp
    ultimately show ?thesis
      using Cons.IH [of st1] Cons.prems(2) rest fp by simp
  qed
qed

lemma disconnect_loop_append:
  "disconnect_loop c (xs @ ys) st =
     (case disconnect_loop c xs st of
        (st1, None) \<Rightarrow> disconnect_loop c ys st1
      | (st1, Some e) \<Rightarrow> (st1, Some e))"
  by (induction xs arbitrary: st) (auto split: sum.splits)

lemma disconnect_prefix_result:
  assumes "snd (disconnect_loop c xs st) = None"
  shows "disconnect_loop c (xs @ ys) st = disconnect_loop c ys (fst (disconnect_loop c xs st))"
  using assms by (simp add: disconnect_loop_append case_prod_unfold)

subsection \<open>The example runs\<close>

lemma busy_server_sessions:
  "sessions busy_server =
     [(''s0'', \<lparr>admin = ''d'', viewers = [''c''], currentPage = JNumber 1,
               pdfUrl = ''/uploads/x.pdf'', createdAt = 5\<rparr>),
      (''s1'', \<lparr>admin = ''c'', viewers = [], currentPage = JNumber 1, pdfUrl = [], createdAt = 10\<rparr>),
      (''s2'', \<lparr>admin = ''d'', viewers = [''c''], currentPage = JNumber 1,
               pdfUrl = ''/uploads/x.pdf'', createdAt = 20\<rparr>),
      (''s3'', \<lparr>admin = ''c'', viewers = [], currentPage = JNumber 1,
               pdfUrl = ''/uploads/y.pdf'', createdAt = 30\<rparr>)]"
  by (simp add: busy_server_def busy_events_def empty_server_def create_session_def
      join_session_def get_property_def set_add_def)

lemma busy_server_files:
  "files busy_server = files empty_server" "uploadsDir busy_server = ''/app/uploads''"
  by (simp_all add: busy_server_def busy_events_def empty_server_def create_session_def
      join_session_def get_property_def)

lemma busy_server_disconnect:
  "snd (disconnect ''c'' busy_server) = Some EISDIR"
  "sessions (fst (disconnect ''c'' busy_server)) =
     [(''s0'', \<lparr>admin = ''d'', viewers = [], currentPage = JNumber 1,
               pdfUrl = ''/uploads/x.pdf'', createdAt = 5\<rparr>),
      (''s1'', \<lparr>admin = ''c'', viewers = [], currentPage = JNumber 1, pdfUrl = [], createdAt = 10\<rparr>),
      (''s2'', \<lparr>admin = ''d'', viewers = [''c''], currentPage = JNumber 1,
               pdfUrl = ''/uploads/x.pdf'', createdAt = 20\<rparr>),
      (''s3'', \<lparr>admin = ''c'', viewers = [], currentPage = JNumber 1,
               pdfUrl = ''/uploads/y.pdf'', createdAt = 30\<rparr>)]"
  "files (fst (disconnect ''c'' busy_server)) = files empty_server"
  by (simp_all add: disconnect_def disconnect_body_def busy_server_sessions busy_server_files
      file_path_def path_join_def basename_def existsSync_def unlinkSync_def set_delete_def
      empty_server_def)

lemma sweep_example_disconnect_a: "snd (disconnect ''a'' sweep_example) = None"
  by (simp add: sweep_example_def disconnect_def disconnect_body_def file_path_def path_join_def
      basename_def existsSync_def unlinkSync_def)

lemma late_server_sessions:
  "sessions late_server =
     [(''s0'', \<lparr>admin = ''d'', viewers = [''c''], currentPage = JNumber 1,
               pdfUrl = ''/uploads/x.pdf'', createdAt = 5\<rparr>),
      (''s3'', \<lparr>admin = ''c'', viewers = [], currentPage = JNumber 1,
               pdfUrl = ''/uploads/y.pdf'', createdAt = 8\<rparr>),
      (''s2'', \<lparr>admin = ''d'', viewers = [''c''], currentPage = JNumber 1,
               pdfUrl = ''/uploads/x.pdf'', createdAt = 9\<rparr>),
      (''s1'', \<lparr>admin = ''c'', viewers = [], currentPage = JNumber 1, pdfUrl = [],
               createdAt = 10\<rparr>)]"
  by (simp add: late_server_def late_events_def empty_server_def create_session_def
      join_session_def get_property_def set_add_def)

lemma late_server_files:
  "files late_server = files empty_server" "uploadsDir late_server = ''/app/uploads''"
  by (simp_all add: late_server_def late_events_def empty_server_def create_session_def
      join_session_def get_property_def)

lemma late_server_disconnect:
  "snd (disconnect ''c'' late_server) = Some EISDIR"
  "snd (disconnect_loop ''c'' [''s0'', ''s3''] late_server) = None"
  by (simp_all add: disconnect_def disconnect_body_def late_server_sessions late_server_files
      file_path_def path_join_def basename_def existsSync_def unlinkSync_def set_delete_def
      empty_server_def)

subsection \<open>A session of the disconnecting controller\<close>

text \<open>
  C4. When the controller \<open>c\<close> of a session disconnects and the handler's loop raises no
  exception at the session or at a session visited before it, the session is no longer in
  the table and the file at \<^verbatim>\<open>path.join(uploadsDir, path.basename(pdfUrl))\<close> no longer
  exists, whatever the session's viewers are and whatever happens at the sessions visited
  after it.
\<close>

theorem controller_disconnect_terminates:
  assumes "map fst (sessions st) = before @ sessionId # after"
    and "map_of (sessions st) sessionId = Some s" and "admin s = c"
    and "snd (disconnect_loop c (before @ [sessionId]) st) = None"
  shows "map_of (sessions (fst (disconnect c st))) sessionId = None
         \<and> \<not> existsSync (files (fst (disconnect c st))) (file_path st s)"
proof -
  let ?st1 = "fst (disconnect_loop c (before @ [sessionId]) st)"
  have pre: "disconnect_loop c (before @ [sessionId]) st = (?st1, None)"
    using assms(4) by (simp add: prod_eq_iff)
  have "sessionId \<in> set (before @ [sessionId])" by simp
  from disconnect_loop_admin [OF assms(2,3) this pre]
  have gone: "map_of (sessions ?st1) sessionId = None"
    and nofile: "files ?st1 (file_path st s) = None"
    by simp_all
  have "disconnect c st = disconnect_loop c after ?st1"
    using disconnect_prefix_result [OF assms(4), of after]
    by (simp add: disconnect_def assms(1))
  then have rest: "disconnect_loop c after ?st1 = (fst (disconnect c st), snd (disconnect c st))"
    by simp
  from disconnect_loop_absent [OF gone rest] disconnect_loop_files [OF rest] nofile
  show ?thesis by (simp add: existsSync_def)
qed

text \<open>
  Without the condition the claim fails: in the example run \<open>c\<close> controls \<open>s1\<close> and
  \<open>s3\<close>; the file path of \<open>s1\<close> is the uploads directory, \<^verbatim>\<open>unlinkSync\<close> throws on
  it, and after the disconnect of \<open>c\<close> the session \<open>s3\<close> is still found and its file
  still exists.
\<close>

theorem controller_disconnect_counterexample:
  "map_of (sessions busy_server) ''s3'' =
     Some \<lparr>admin = ''c'', viewers = [], currentPage = JNumber 1, pdfUrl = ''/uploads/y.pdf'',
           createdAt = 30\<rparr>
   \<and> get_property (sessions (fst (disconnect ''c'' busy_server))) ''s3'' =
       Own \<lparr>admin = ''c'', viewers = [], currentPage = JNumber 1, pdfUrl = ''/uploads/y.pdf'',
            createdAt = 30\<rparr>
   \<and> files (fst (disconnect ''c'' busy_server)) ''/app/uploads/y.pdf'' = Some File"
  by (simp add: busy_server_disconnect busy_server_sessions get_property_def empty_server_def)

text \<open>
  In the second example run the disconnect of \<open>c\<close> ends with the exception of \<open>s1\<close>,
  and the session \<open>s3\<close>, visited before, is gone with its file.
\<close>

theorem controller_disconnect_terminates_witness:
  "map fst (sessions late_server) = [''s0''] @ ''s3'' # [''s2'', ''s1'']
   \<and> map_of (sessions late_server) ''s3'' =
       Some \<lparr>admin = ''c'', viewers = [], currentPage = JNumber 1, pdfUrl = ''/uploads/y.pdf'',
             createdAt = 8\<rparr>
   \<and> snd (disconnect_loop ''c'' ([''s0''] @ [''s3'']) late_server) = None
   \<and> snd (disconnect ''c'' late_server) = Some EISDIR
   \<and> map_of (sessions (fst (disconnect ''c'' late_server))) ''s3'' = None
   \<and> \<not> existsSync (files (fst (disconnect ''c'' late_server))) ''/app/uploads/y.pdf''"
proof -
  let ?s = "\<lparr>admin = ''c'', viewers = [], currentPage = JNumber 1, pdfUrl = ''/uploads/y.pdf'',
             createdAt = 8\<rparr>"
  have h1: "map fst (sessions late_server) = [''s0''] @ ''s3'' # [''s2'', ''s1'']"
    by (simp add: late_server_sessions)
  have h2: "map_of (sessions late_server) ''s3'' = Some ?s"
    by (simp add: late_server_sessions)
  have h3: "admin ?s = ''c''" by simp
  have h4: "snd (disconnect_loop ''c'' ([''s0''] @ [''s3'']) late_server) = None"
    using late_server_disconnect(2) by simp
  have p: "file_path late_server ?s = ''/app/uploads/y.pdf''"
    by (simp add: file_path_def path_join_def basename_def late_server_files)
  note t = controller_disconnect_terminates [OF h1 h2 h3 h4]
  from t p have r: "map_of (sessions (fst (disconnect ''c'' late_server))) ''s3'' = None
      \<and> \<not> existsSync (files (fst (disconnect ''c'' late_server))) ''/app/uploads/y.pdf''"
    by simp
  from r h1 h2 h4 late_server_disconnect(1) show ?thesis by blast
qed

subsection \<open>A session that the disconnecting connection does not control\<close>

lemma set_delete_idem: "set_delete c (set_delete c xs) = set_delete c xs"
  by (simp add: set_delete_def)

lemma set_delete_filter: "set_delete c xs = filter (\<lambda>v. v \<noteq> c) xs"
  by (induction xs) (auto simp: set_delete_def)

lemma disconnect_body_viewer:
  assumes "map_of (sessions st) sid = Some s" "admin s \<noteq> c"
  shows "\<exists>st'. disconnect_body c sid st = Inr st'
           \<and> map_of (sessions st') sid = Some (s\<lparr>viewers := set_delete c (viewers s)\<rparr>)"
  using assms by (simp add: disconnect_body_def update_conv')

lemma disconnect_loop_viewer:
  assumes "map_of (sessions st) sid = Some s" "admin s \<noteq> c"
    "disconnect_loop c ks st = (st', err)"
  shows "(map_of (sessions st') sid = Some s
          \<or> map_of (sessions st') sid = Some (s\<lparr>viewers := set_delete c (viewers s)\<rparr>))
         \<and> (err = None \<and> sid \<in> set ks \<longrightarrow>
              map_of (sessions st') sid = Some (s\<lparr>viewers := set_delete c (viewers s)\<rparr>))
         \<and> (set_delete c (viewers s) = viewers s \<longrightarrow> map_of (sessions st') sid = Some s)"
  using assms
proof (induction ks arbitrary: st s)
  case Nil
  then show ?case by simp
next
  case (Cons k ks)
  show ?case
  proof (cases "disconnect_body c k st")
    case (Inl e)
    with Cons.prems have "st' = st" "err = Some e" by simp_all
    with Cons.prems show ?thesis by simp
  next
    case (Inr st1)
    with Cons.prems have rest: "disconnect_loop c ks st1 = (st', err)" by simp
    show ?thesis
    proof (cases "k = sid")
      case False
      have "map_of (sessions st1) sid = Some s"
        using disconnect_body_other [OF Inr False] Cons.prems(1) by simp
      from Cons.IH [OF this Cons.prems(2) rest] False show ?thesis by simp
    next
      case True
      let ?t = "s\<lparr>viewers := set_delete c (viewers s)\<rparr>"
      have t: "map_of (sessions st1) sid = Some ?t"
        using disconnect_body_viewer [OF Cons.prems(1,2)] Inr True by simp
      have "admin ?t \<noteq> c" using Cons.prems(2) by simp
      from Cons.IH [OF t this rest]
      have "map_of (sessions st') sid = Some ?t"
        by (simp add: set_delete_idem)
      then show ?thesis by auto
    qed
  qed
qed

lemma disconnect_loop_viewer_head:
  assumes "map_of (sessions st) sid = Some s" "admin s \<noteq> c"
    "disconnect_loop c (sid # ks) st = (st', err)"
  shows "map_of (sessions st') sid = Some (s\<lparr>viewers := set_delete c (viewers s)\<rparr>)"
proof -
  let ?t = "s\<lparr>viewers := set_delete c (viewers s)\<rparr>"
  from disconnect_body_viewer [OF assms(1,2)] obtain st1
    where body: "disconnect_body c sid st = Inr st1"
      and t: "map_of (sessions st1) sid = Some ?t"
    by blast
  from assms(3) body have rest: "disconnect_loop c ks st1 = (st', err)" by simp
  have "admin ?t \<noteq> c" using assms(2) by simp
  from disconnect_loop_viewer [OF t this rest] show ?thesis
    by (simp add: set_delete_idem)
qed

text \<open>
  C9. When \<open>c\<close> disconnects, a session that \<open>c\<close> does not control stays in the table and
  is either untouched or has lost exactly \<open>c\<close> from its viewers, every other field and
  every other viewer as before. \<open>c\<close> is removed whenever the handler's loop raises no
  exception at a session visited before this one, whatever happens after it; when an
  exception is raised before, the session is as it was.
\<close>

theorem viewer_disconnect_frame:
  assumes "map fst (sessions st) = before @ sessionId # after"
    and "map_of (sessions st) sessionId = Some s" and "admin s \<noteq> c"
  shows "(snd (disconnect_loop c before st) = None \<longrightarrow>
            map_of (sessions (fst (disconnect c st))) sessionId =
              Some (s\<lparr>viewers := set_delete c (viewers s)\<rparr>))
         \<and> (snd (disconnect_loop c before st) \<noteq> None \<and> sessionId \<notin> set before \<longrightarrow>
            map_of (sessions (fst (disconnect c st))) sessionId = Some s)
         \<and> (map_of (sessions (fst (disconnect c st))) sessionId = Some s
            \<or> map_of (sessions (fst (disconnect c st))) sessionId =
                Some (s\<lparr>viewers := set_delete c (viewers s)\<rparr>))
         \<and> set_delete c (viewers s) = filter (\<lambda>v. v \<noteq> c) (viewers s)"
proof -
  let ?t = "s\<lparr>viewers := set_delete c (viewers s)\<rparr>"
  have whole: "disconnect_loop c (map fst (sessions st)) st
      = (fst (disconnect c st), snd (disconnect c st))"
    by (simp add: disconnect_def)
  from disconnect_loop_viewer [OF assms(2,3) whole]
  have frame: "map_of (sessions (fst (disconnect c st))) sessionId = Some s
      \<or> map_of (sessions (fst (disconnect c st))) sessionId = Some ?t"
    by blast
  have removed: "map_of (sessions (fst (disconnect c st))) sessionId = Some ?t"
    if ok: "snd (disconnect_loop c before st) = None"
  proof -
    let ?st1 = "fst (disconnect_loop c before st)"
    have pre: "disconnect_loop c before st = (?st1, None)"
      using ok by (simp add: prod_eq_iff)
    have rest: "disconnect_loop c (sessionId # after) ?st1
        = (fst (disconnect c st), snd (disconnect c st))"
      using disconnect_prefix_result [OF ok, of "sessionId # after"]
      by (simp add: disconnect_def assms(1))
    from disconnect_loop_viewer [OF assms(2,3) pre]
    consider "map_of (sessions ?st1) sessionId = Some s"
      | "map_of (sessions ?st1) sessionId = Some ?t"
      by blast
    then show ?thesis
    proof cases
      case 1
      from disconnect_loop_viewer_head [OF 1 assms(3) rest] show ?thesis .
    next
      case 2
      have "admin ?t \<noteq> c" using assms(3) by simp
      from disconnect_loop_viewer_head [OF 2 this rest] show ?thesis
        by (simp add: set_delete_idem)
    qed
  qed
  have untouched: "map_of (sessions (fst (disconnect c st))) sessionId = Some s"
    if bad: "snd (disconnect_loop c before st) \<noteq> None" and new: "sessionId \<notin> set before"
  proof -
    let ?st1 = "fst (disconnect_loop c before st)"
    from bad obtain e where e: "snd (disconnect_loop c before st) = Some e"
      by blast
    then have pre: "disconnect_loop c before st = (?st1, Some e)"
      by (simp add: prod_eq_iff)
    have "disconnect c st = (?st1, Some e)"
      by (simp add: disconnect_def assms(1) disconnect_loop_append case_prod_unfold e)
    moreover have "map_of (sessions ?st1) sessionId = map_of (sessions st) sessionId"
      using new pre by (rule disconnect_loop_other)
    ultimately show ?thesis using assms(2) by simp
  qed
  from frame removed untouched set_delete_filter [of c "viewers s"] show ?thesis by blast
qed

text \<open>
  That \<open>c\<close> is always removed fails: in the example run the loop stops at \<open>s1\<close>, before
  it reaches \<open>s2\<close>, and \<open>c\<close> stays a viewer of \<open>s2\<close>.
\<close>

theorem viewer_disconnect_counterexample:
  "map_of (sessions busy_server) ''s2'' =
     Some \<lparr>admin = ''d'', viewers = [''c''], currentPage = JNumber 1, pdfUrl = ''/uploads/x.pdf'',
           createdAt = 20\<rparr>
   \<and> map_of (sessions (fst (disconnect ''c'' busy_server))) ''s2'' =
       Some \<lparr>admin = ''d'', viewers = [''c''], currentPage = JNumber 1, pdfUrl = ''/uploads/x.pdf'',
             createdAt = 20\<rparr>"
  by (simp add: busy_server_disconnect busy_server_sessions)

text \<open>
  In the second example run \<open>c\<close> is removed from the viewers of \<open>s2\<close>, visited after
  \<open>s0\<close> and \<open>s3\<close>, although the disconnect ends with the exception of \<open>s1\<close>.
\<close>

theorem viewer_disconnect_frame_witness:
  "map fst (sessions late_server) = [''s0'', ''s3''] @ ''s2'' # [''s1'']
   \<and> map_of (sessions late_server) ''s2'' =
       Some \<lparr>admin = ''d'', viewers = [''c''], currentPage = JNumber 1,
             pdfUrl = ''/uploads/x.pdf'', createdAt = 9\<rparr>
   \<and> snd (disconnect_loop ''c'' [''s0'', ''s3''] late_server) = None
   \<and> snd (disconnect ''c'' late_server) = Some EISDIR
   \<and> map_of (sessions (fst (disconnect ''c'' late_server))) ''s2'' =
       Some \<lparr>admin = ''d'', viewers = [], currentPage = JNumber 1,
             pdfUrl = ''/uploads/x.pdf'', createdAt = 9\<rparr>"
proof -
  let ?s = "\<lparr>admin = ''d'', viewers = [''c''], currentPage = JNumber 1,
             pdfUrl = ''/uploads/x.pdf'', createdAt = 9\<rparr>"
  have h1: "map fst (sessions late_server) = [''s0'', ''s3''] @ ''s2'' # [''s1'']"
    by (simp add: late_server_sessions)
  have h2: "map_of (sessions late_server) ''s2'' = Some ?s"
    by (simp add: late_server_sessions)
  have h3: "admin ?s \<noteq> ''c''" by simp
  note t = viewer_disconnect_frame [OF h1 h2 h3]
  from t late_server_disconnect(2)
  have "map_of (sessions (fst (disconnect ''c'' late_server))) ''s2'' =
      Some (?s\<lparr>viewers := set_delete ''c'' (viewers ?s)\<rparr>)"
    by blast
  then have r: "map_of (sessions (fst (disconnect ''c'' late_server))) ''s2'' =
       Some \<lparr>admin = ''d'', viewers = [], currentPage = JNumber 1,
             pdfUrl = ''/uploads/x.pdf'', createdAt = 9\<rparr>"
    by (simp add: set_delete_def)
  from r h1 h2 late_server_disconnect(1,2) show ?thesis by blast
qed

subsection \<open>An exception inside the loop\<close>

lemma disconnect_body_throws:
  assumes "map_of (sessions st) sid = Some s" "admin s = c"
    "existsSync (files st) (file_path st s)" "unlinkSync (files st) (file_path st s) = Inl e"
  shows "disconnect_body c sid st = Inl e"
  using assms by (simp add: disconnect_body_def)

text \<open>
  C3. An exception thrown by \<^verbatim>\<open>fs.unlinkSync\<close> while the loop cleans up a session of the
  disconnecting controller is caught by the handler's single \<^verbatim>\<open>catch\<close> and ends the
  loop: the handler returns the state reached after the keys visited before, with the
  failing session still in the table and the sessions after it as they were.
\<close>

theorem disconnect_failure_stops_traversal:
  assumes "map fst (sessions st) = before @ sessionId # after"
    and "snd (disconnect_loop c before st) = None"
    and "map_of (sessions (fst (disconnect_loop c before st))) sessionId = Some s"
    and "admin s = c"
    and "existsSync (files (fst (disconnect_loop c before st)))
           (file_path (fst (disconnect_loop c before st)) s)"
    and "unlinkSync (files (fst (disconnect_loop c before st)))
           (file_path (fst (disconnect_loop c before st)) s) = Inl e"
  shows "disconnect c st = (fst (disconnect_loop c before st), Some e)
         \<and> map_of (sessions (fst (disconnect c st))) sessionId = Some s
         \<and> (\<forall>k \<in> set after. k \<notin> set before \<longrightarrow>
               map_of (sessions (fst (disconnect c st))) k = map_of (sessions st) k)"
proof -
  let ?st1 = "fst (disconnect_loop c before st)"
  have "disconnect_body c sessionId ?st1 = Inl e"
    using assms(3-6) by (rule disconnect_body_throws)
  then have "disconnect_loop c (sessionId # after) ?st1 = (?st1, Some e)"
    by simp
  then have d: "disconnect c st = (?st1, Some e)"
    by (simp add: disconnect_def assms(1,2) disconnect_loop_append case_prod_unfold)
  have pre: "disconnect_loop c before st = (?st1, None)"
    using assms(2) by (simp add: prod_eq_iff)
  have "map_of (sessions ?st1) k = map_of (sessions st) k" if "k \<notin> set before" for k
    using that pre by (rule disconnect_loop_other)
  with d assms(3) show ?thesis by simp
qed

text \<open>
  That the failure neither keeps the record nor stops the remaining clean-up fails: in the
  example run the disconnect of \<open>c\<close> logs the exception of \<open>s1\<close>, and both \<open>s1\<close> and
  the later session \<open>s3\<close> of \<open>c\<close> are still in the table.
\<close>

theorem disconnect_failure_counterexample:
  "snd (disconnect ''c'' busy_server) = Some EISDIR
   \<and> map_of (sessions (fst (disconnect ''c'' busy_server))) ''s1'' =
       Some \<lparr>admin = ''c'', viewers = [], currentPage = JNumber 1, pdfUrl = [], createdAt = 10\<rparr>
   \<and> map_of (sessions (fst (disconnect ''c'' busy_server))) ''s3'' =
       Some \<lparr>admin = ''c'', viewers = [], currentPage = JNumber 1, pdfUrl = ''/uploads/y.pdf'',
             createdAt = 30\<rparr>"
  by (simp add: busy_server_disconnect)

theorem disconnect_failure_stops_traversal_witness:
  "map fst (sessions busy_server) = [''s0''] @ ''s1'' # [''s2'', ''s3'']
   \<and> snd (disconnect_loop ''c'' [''s0''] busy_server) = None
   \<and> map_of (sessions (fst (disconnect_loop ''c'' [''s0''] busy_server))) ''s1'' =
       Some \<lparr>admin = ''c'', viewers = [], currentPage = JNumber 1, pdfUrl = [], createdAt = 10\<rparr>
   \<and> disconnect ''c'' busy_server =
       (fst (disconnect_loop ''c'' [''s0''] busy_server), Some EISDIR)
   \<and> map_of (sessions (fst (disconnect ''c'' busy_server))) ''s3'' =
       map_of (sessions busy_server) ''s3''"
proof -
  let ?s = "\<lparr>admin = ''c'', viewers = [], currentPage = JNumber 1, pdfUrl = [], createdAt = 10\<rparr>"
  let ?st1 = "fst (disconnect_loop ''c'' [''s0''] busy_server)"
  have st1: "disconnect_loop ''c'' [''s0''] busy_server =
      (busy_server\<lparr>sessions := AList.update ''s0''
          \<lparr>admin = ''d'', viewers = [], currentPage = JNumber 1, pdfUrl = ''/uploads/x.pdf'',
            createdAt = 5\<rparr> (sessions busy_server)\<rparr>, None)"
    by (simp add: disconnect_body_def busy_server_sessions set_delete_def)
  have h1: "map fst (sessions busy_server) = [''s0''] @ ''s1'' # [''s2'', ''s3'']"
    by (simp add: busy_server_sessions)
  have h2: "snd (disconnect_loop ''c'' [''s0''] busy_server) = None"
    unfolding st1 by simp
  have h3: "map_of (sessions ?st1) ''s1'' = Some ?s"
    unfolding st1 by (simp add: busy_server_sessions)
  have h4: "admin ?s = ''c''" by simp
  have p: "file_path ?st1 ?s = ''/app/uploads''"
    unfolding st1 by (simp add: file_path_def path_join_def basename_def busy_server_files)
  have h5: "existsSync (files ?st1) (file_path ?st1 ?s)"
    unfolding p unfolding st1
    by (simp add: existsSync_def busy_server_files empty_server_def)
  have h6: "unlinkSync (files ?st1) (file_path ?st1 ?s) = Inl EISDIR"
    unfolding p unfolding st1
    by (simp add: unlinkSync_def busy_server_files empty_server_def)
  note t = disconnect_failure_stops_traversal [OF h1 h2 h3 h4 h5 h6]
  from t have a: "disconnect ''c'' busy_server = (?st1, Some EISDIR)"
    by blast
  from t have "\<forall>k \<in> set [''s2'', ''s3'']. k \<notin> set [''s0''] \<longrightarrow>
      map_of (sessions (fst (disconnect ''c'' busy_server))) k = map_of (sessions busy_server) k"
    by blast
  then have b: "map_of (sessions (fst (disconnect ''c'' busy_server))) ''s3'' =
      map_of (sessions busy_server) ''s3''"
    by simp
  from a b h1 h2 h3 show ?thesis by blast
qed

section \<open>The sweep and the uploaded files\<close>

text \<open>
  C10. The sweep changes no file: when it removes an expired session, the file at the
  session's path exists after the sweep if it existed before, whereas a disconnect of the
  session's controller that ends without an exception leaves no file at that path.
\<close>

theorem sweep_keeps_files:
  "files (sweep now st) = files st
   \<and> (wf_store (sessions st) \<and> map_of (sessions st) sessionId = Some s
        \<and> now - createdAt s > 24 * 60 * 60 * 1000
      \<longrightarrow> map_of (sessions (sweep now st)) sessionId = None
          \<and> existsSync (files (sweep now st)) (file_path st s)
              = existsSync (files st) (file_path st s))
   \<and> (map_of (sessions st) sessionId = Some s \<and> admin s = c \<and> snd (disconnect c st) = None
      \<longrightarrow> \<not> existsSync (files (fst (disconnect c st))) (file_path st s))"
proof -
  have f: "files (sweep now st) = files st"
    by (simp add: sweep_def sweep_loop_frame)
  have g: "map_of (sessions (sweep now st)) sessionId = None"
    if "wf_store (sessions st)" "map_of (sessions st) sessionId = Some s"
      "now - createdAt s > 24 * 60 * 60 * 1000"
    using sweep_lookup [OF that(1) map_of_SomeD [OF that(2)], of now] that(3) by simp
  have "\<not> existsSync (files (fst (disconnect c st))) (file_path st s)"
    if "map_of (sessions st) sessionId = Some s" "admin s = c" "snd (disconnect c st) = None"
  proof -
    have "disconnect_loop c (map fst (sessions st)) st = (fst (disconnect c st), None)"
      using that(3) by (simp add: disconnect_def prod_eq_iff)
    from disconnect_loop_admin [OF that(1,2) map_of_in_keys [OF that(1)] this]
    show ?thesis by (simp add: existsSync_def)
  qed
  with f g show ?thesis by auto
qed

theorem sweep_keeps_files_witness:
  "wf_store (sessions sweep_example)
   \<and> map_of (sessions sweep_example) ''s1'' =
     Some \<lparr>admin = ''a'', viewers = [''b''], currentPage = JNumber 1, pdfUrl = ''/uploads/x.pdf'',
           createdAt = 3599999\<rparr>
   \<and> snd (disconnect ''a'' sweep_example) = None
   \<and> map_of (sessions (sweep 90000000 sweep_example)) ''s1'' = None
   \<and> existsSync (files (sweep 90000000 sweep_example)) ''/app/uploads/x.pdf''
   \<and> \<not> existsSync (files (fst (disconnect ''a'' sweep_example))) ''/app/uploads/x.pdf''"
proof -
  let ?s = "\<lparr>admin = ''a'', viewers = [''b''], currentPage = JNumber 1, pdfUrl = ''/uploads/x.pdf'',
           createdAt = 3599999\<rparr>"
  have h0: "wf_store (sessions sweep_example)"
    by (simp add: wf_store_def sweep_example_def)
  have h1: "map_of (sessions sweep_example) ''s1'' = Some ?s"
    by (simp add: sweep_example_def)
  have p: "file_path sweep_example ?s = ''/app/uploads/x.pdf''"
    by (simp add: file_path_def path_join_def basename_def sweep_example_def)
  have h2: "existsSync (files sweep_example) ''/app/uploads/x.pdf''"
    by (simp add: existsSync_def sweep_example_def)
  from sweep_keeps_files [of 90000000 sweep_example "''s1''" ?s "''a''"]
    h0 h1 h2 p sweep_example_disconnect_a
  show ?thesis by simp
qed

end
